theory Spec2Isabelle
  imports Main "HOL-Library.Word"
begin

unbundle bit_operations_syntax

section \<open>Data model\<close>

text \<open>
  The program is \<^verbatim>\<open>sample-plugins/hello-plugin/add_custom_section.py\<close>.
  A Python \<^verbatim>\<open>bytes\<close> object is a list of 8-bit words. A Python \<^verbatim>\<open>str\<close> is a list of
  Unicode code points, each a natural number; lone surrogates (U+D800..U+DFFF) are legal
  elements of a \<^verbatim>\<open>str\<close> (they appear in \<^verbatim>\<open>sys.argv\<close> for undecodable bytes).
  Python integers are unbounded: \<open>int\<close>.
\<close>

type_synonym byte = "8 word"
type_synonym bytes = "byte list"
type_synonym str = "nat list"

text \<open>
  The exceptions the program can raise, with the part of Python's class hierarchy that
  matters here. A \<open>ValueError\<close> is either \<open>Plain msg\<close>, an explicit
  \<^verbatim>\<open>raise ValueError(msg)\<close>, or \<open>UnicodeError\<close>, which stands for the
  \<^verbatim>\<open>UnicodeEncodeError\<close> and \<^verbatim>\<open>UnicodeDecodeError\<close> of the codecs: both are
  subclasses of \<^verbatim>\<open>ValueError\<close>, so that \<^verbatim>\<open>except ValueError\<close> catches them.
  \<open>OSError\<close> stands for the failures of \<^verbatim>\<open>open\<close> and of writing a file
  (\<^verbatim>\<open>FileNotFoundError\<close>, \<^verbatim>\<open>PermissionError\<close> and the like).
\<close>

datatype value_error = Plain string | UnicodeError

datatype error = ValueError value_error | OSError

section \<open>The varint encoder\<close>

text \<open>
  The \<^verbatim>\<open>while True\<close> loop of \<^verbatim>\<open>encode_leb128\<close>, with the loop variables \<^verbatim>\<open>value\<close>
  and \<^verbatim>\<open>result\<close> as arguments. Python's \<^verbatim>\<open>>>\<close> on integers is the arithmetic shift
  \<open>drop_bit\<close>. The loop need not terminate, so not returning is \<open>None\<close>.
\<close>

partial_function (option) encode_leb128_loop :: "int \<Rightarrow> int list \<Rightarrow> int list option" where
  "encode_leb128_loop value result =
     (let byte = value AND 0x7F;
          value = drop_bit 7 value;
          byte = (if value \<noteq> 0 then byte OR 0x80 else byte);
          result = result @ [byte]
      in if value = 0 then Some result else encode_leb128_loop value result)"

text \<open>Python's \<^verbatim>\<open>bytes(list_of_ints)\<close>: every element must be in \<^verbatim>\<open>range(256)\<close>.\<close>

definition bytes_of_ints :: "int list \<Rightarrow> error + bytes" where
  "bytes_of_ints xs =
     (if list_all (\<lambda>x. 0 \<le> x \<and> x < 256) xs then Inr (map word_of_int xs)
      else Inl (ValueError (Plain ''bytes must be in range(0, 256)'')))"

definition encode_leb128 :: "int \<Rightarrow> (error + bytes) option" where
  "encode_leb128 value =
     (case encode_leb128_loop value [] of
        None \<Rightarrow> None
      | Some result \<Rightarrow> Some (bytes_of_ints result))"

section \<open>The UTF-8 codec of the Python runtime\<close>

text \<open>
  \<^verbatim>\<open>str.encode('utf-8')\<close> belongs to the Python runtime, not to the repository. It is
  modelled after the definition of UTF-8: one to four bytes per code point, and, as the
  strict error handler does, an exception for a surrogate code point. Numbers from
  0x110000 on are not code points of any \<^verbatim>\<open>str\<close>; the model rejects them as well.
\<close>

definition utf8_encode_char :: "nat \<Rightarrow> error + bytes" where
  "utf8_encode_char c =
     (if c < 0x80 then Inr [of_nat c]
      else if c < 0x800 then Inr [of_nat (0xC0 + c div 64), of_nat (0x80 + c mod 64)]
      else if 0xD800 \<le> c \<and> c < 0xE000 then Inl (ValueError UnicodeError)
      else if c < 0x10000 then
        Inr [of_nat (0xE0 + c div 4096), of_nat (0x80 + c div 64 mod 64),
             of_nat (0x80 + c mod 64)]
      else if c < 0x110000 then
        Inr [of_nat (0xF0 + c div 262144), of_nat (0x80 + c div 4096 mod 64),
             of_nat (0x80 + c div 64 mod 64), of_nat (0x80 + c mod 64)]
      else Inl (ValueError UnicodeError))"

fun utf8_encode :: "str \<Rightarrow> error + bytes" where
  "utf8_encode [] = Inr []"
| "utf8_encode (c # cs) =
     (case utf8_encode_char c of
        Inl e \<Rightarrow> Inl e
      | Inr bs \<Rightarrow> (case utf8_encode cs of Inl e \<Rightarrow> Inl e | Inr rest \<Rightarrow> Inr (bs @ rest)))"

text \<open>
  The strict decoder (\<^verbatim>\<open>bytes.decode('utf-8')\<close>): it rejects truncated sequences, bytes
  that are not continuation bytes where one is due, overlong forms, encoded surrogates and
  values above U+10FFFF.
\<close>

definition is_cont :: "byte \<Rightarrow> bool" where
  "is_cont b = (0x80 \<le> unat b \<and> unat b < 0xC0)"

definition cons_ok :: "nat \<Rightarrow> error + str \<Rightarrow> error + str" where
  "cons_ok c r = (case r of Inl e \<Rightarrow> Inl e | Inr cs \<Rightarrow> Inr (c # cs))"

fun utf8_decode :: "bytes \<Rightarrow> error + str" where
  "utf8_decode [] = Inr []"
| "utf8_decode (b # bs) =
     (let x = unat b in
      if x < 0x80 then cons_ok x (utf8_decode bs)
      else if 0xC0 \<le> x \<and> x < 0xE0 then
        (case bs of
           b1 # rest \<Rightarrow>
             (let c = (x - 0xC0) * 64 + (unat b1 - 0x80) in
              if is_cont b1 \<and> 0x80 \<le> c then cons_ok c (utf8_decode rest)
              else Inl (ValueError UnicodeError))
         | _ \<Rightarrow> Inl (ValueError UnicodeError))
      else if 0xE0 \<le> x \<and> x < 0xF0 then
        (case bs of
           b1 # b2 # rest \<Rightarrow>
             (let c = (x - 0xE0) * 4096 + (unat b1 - 0x80) * 64 + (unat b2 - 0x80) in
              if is_cont b1 \<and> is_cont b2 \<and> 0x800 \<le> c \<and> \<not> (0xD800 \<le> c \<and> c < 0xE000)
              then cons_ok c (utf8_decode rest)
              else Inl (ValueError UnicodeError))
         | _ \<Rightarrow> Inl (ValueError UnicodeError))
      else if 0xF0 \<le> x \<and> x < 0xF8 then
        (case bs of
           b1 # b2 # b3 # rest \<Rightarrow>
             (let c = (x - 0xF0) * 262144 + (unat b1 - 0x80) * 4096
                      + (unat b2 - 0x80) * 64 + (unat b3 - 0x80) in
              if is_cont b1 \<and> is_cont b2 \<and> is_cont b3 \<and> 0x10000 \<le> c \<and> c < 0x110000
              then cons_ok c (utf8_decode rest)
              else Inl (ValueError UnicodeError))
         | _ \<Rightarrow> Inl (ValueError UnicodeError))
      else Inl (ValueError UnicodeError))"

section \<open>Splicing the custom section into the container\<close>

definition wasm_magic :: bytes where
  "wasm_magic = [0x00, 0x61, 0x73, 0x6D]"

text \<open>
  \<^verbatim>\<open>add_custom_section(wasm_bytes, name, data)\<close>. The slices \<^verbatim>\<open>wasm_bytes[:4]\<close>,
  \<^verbatim>\<open>wasm_bytes[4:8]\<close> and \<^verbatim>\<open>wasm_bytes[8:]\<close> are \<open>take\<close> and \<open>drop\<close>: a Python slice
  past the end of the sequence yields the bytes that are there. \<open>None\<close> is a call
  that does not return, \<open>Some (Inl e)\<close> a raised exception.
\<close>

definition add_custom_section :: "bytes \<Rightarrow> str \<Rightarrow> bytes \<Rightarrow> (error + bytes) option" where
  "add_custom_section wasm_bytes name data =
     (let magic = take 4 wasm_bytes;
          version = take 4 (drop 4 wasm_bytes)
      in if magic \<noteq> wasm_magic then Some (Inl (ValueError (Plain ''Invalid WASM file'')))
         else case utf8_encode name of
           Inl e \<Rightarrow> Some (Inl e)
         | Inr name_bytes \<Rightarrow>
            (case encode_leb128 (int (length name_bytes)) of
               None \<Rightarrow> None
             | Some (Inl e) \<Rightarrow> Some (Inl e)
             | Some (Inr name_len) \<Rightarrow>
                (let section_content = name_len @ name_bytes @ data
                 in case encode_leb128 (int (length section_content)) of
                      None \<Rightarrow> None
                    | Some (Inl e) \<Rightarrow> Some (Inl e)
                    | Some (Inr content_len) \<Rightarrow>
                       (let custom_section = [0] @ content_len @ section_content
                        in Some (Inr (magic @ version @ custom_section
                                      @ drop 8 wasm_bytes))))))"

section \<open>The command-line program\<close>

text \<open>
  The state the script acts on: the argument vector, the bytes waiting on standard input,
  the files that can be opened and read with their contents, and the lines printed so
  far. Three more fields say what the environment lets the script do: whether
  \<^verbatim>\<open>open(path, 'wb')\<close> succeeds for a path (it does not when the directory is missing
  or not writable), after how many bytes writing to a path fails, if it does (a full
  disk), and which texts standard output can encode (with the strict error handler, a
  text with a lone surrogate cannot be printed).
\<close>

record world =
  argv :: "str list"
  stdin :: bytes
  files :: "str \<rightharpoonup> bytes"
  creatable :: "str \<Rightarrow> bool"
  write_limit :: "str \<Rightarrow> nat option"
  stdout_accepts :: "str \<Rightarrow> bool"
  stdout :: "str list"

datatype outcome = Finished | SystemExit nat | Raised error

definition str_of :: "string \<Rightarrow> str" where
  "str_of s = map of_char s"

text \<open>
  \<^verbatim>\<open>manifest_data = sys.stdin.read().encode('utf-8')\<close>. \<^verbatim>\<open>sys.stdin\<close> is a text stream:
  \<^verbatim>\<open>read()\<close> decodes the raw bytes (UTF-8 is assumed for the stream, without newline
  translation, as on POSIX systems), and the text is encoded again. Under the strict
  error handler undecodable input raises in \<^verbatim>\<open>read()\<close>; under \<^verbatim>\<open>surrogateescape\<close> it
  becomes lone surrogates on which \<^verbatim>\<open>encode\<close> raises. Both are a \<open>UnicodeError\<close>
  from this line.
\<close>

definition read_manifest :: "bytes \<Rightarrow> error + bytes" where
  "read_manifest raw =
     (case utf8_decode raw of
        Inl e \<Rightarrow> Inl e
      | Inr text \<Rightarrow> utf8_encode text)"

definition usage :: str where
  "usage = str_of
     ''Usage: add_custom_section.py <input.wasm> -s <section_name> -o <output.wasm>''"

definition added_message :: "str \<Rightarrow> str \<Rightarrow> str" where
  "added_message section_name output_file =
     str_of ''Added '' @ [0x27] @ section_name @ [0x27]
       @ str_of '' custom section to '' @ output_file"

text \<open>
  \<^verbatim>\<open>print(s)\<close>: the line is appended to the output, or the stream cannot encode it and
  \<^verbatim>\<open>print\<close> raises \<^verbatim>\<open>UnicodeEncodeError\<close>.
\<close>

definition print_line :: "world \<Rightarrow> str \<Rightarrow> error + world" where
  "print_line w s =
     (if stdout_accepts w s then Inr (w\<lparr>stdout := stdout w @ [s]\<rparr>)
      else Inl (ValueError UnicodeError))"

text \<open>
  The end of the \<^verbatim>\<open>__main__\<close> block, from \<^verbatim>\<open>with open(output_file, 'wb')\<close> on. When
  the file cannot be opened for writing, \<^verbatim>\<open>open\<close> raises and nothing is written. An
  opened file is truncated; when the write fails midway, the bytes written so far stay
  in the file and the error is raised. After a complete write the confirmation is
  printed, which can raise as every \<^verbatim>\<open>print\<close> can; the file is then already written.
\<close>

definition write_output :: "world \<Rightarrow> str \<Rightarrow> str \<Rightarrow> bytes \<Rightarrow> outcome \<times> world" where
  "write_output w section_name output_file result =
     (if \<not> creatable w output_file then (Raised OSError, w)
      else case write_limit w output_file of
        Some k \<Rightarrow>
          if k < length result
          then (Raised OSError, w\<lparr>files := (files w)(output_file \<mapsto> take k result)\<rparr>)
          else (case print_line (w\<lparr>files := (files w)(output_file \<mapsto> result)\<rparr>)
                       (added_message section_name output_file) of
                  Inl e \<Rightarrow> (Raised e, w\<lparr>files := (files w)(output_file \<mapsto> result)\<rparr>)
                | Inr w' \<Rightarrow> (Finished, w'))
      | None \<Rightarrow>
          (case print_line (w\<lparr>files := (files w)(output_file \<mapsto> result)\<rparr>)
                  (added_message section_name output_file) of
             Inl e \<Rightarrow> (Raised e, w\<lparr>files := (files w)(output_file \<mapsto> result)\<rparr>)
           | Inr w' \<Rightarrow> (Finished, w')))"

text \<open>
  The \<^verbatim>\<open>__main__\<close> block. An uncaught exception ends the run with \<open>Raised\<close>, in the
  world as it is at that point. Opening the input file fails when the path is not among
  the readable files.
\<close>

definition main :: "world \<Rightarrow> (outcome \<times> world) option" where
  "main w =
     (if length (argv w) \<noteq> 6 \<or> argv w ! 2 \<noteq> str_of ''-s'' \<or> argv w ! 4 \<noteq> str_of ''-o''
      then (case print_line w usage of
              Inl e \<Rightarrow> Some (Raised e, w)
            | Inr w' \<Rightarrow> Some (SystemExit 1, w'))
      else
        let input_file = argv w ! 1;
            section_name = argv w ! 3;
            output_file = argv w ! 5
        in case read_manifest (stdin w) of
             Inl e \<Rightarrow> Some (Raised e, w)
           | Inr manifest_data \<Rightarrow>
              (case files w input_file of
                 None \<Rightarrow> Some (Raised OSError, w)
               | Some wasm_bytes \<Rightarrow>
                  (case add_custom_section wasm_bytes section_name manifest_data of
                     None \<Rightarrow> None
                   | Some (Inl e) \<Rightarrow> Some (Raised e, w)
                   | Some (Inr result) \<Rightarrow>
                      Some (write_output w section_name output_file result))))"

section \<open>Readers of the format\<close>

text \<open>
  The repository only writes the format. The round-trip properties are stated against
  the two readers of this section, which follow the definition of the format.

  The unsigned LEB128 decoder: the value of a varint is the sum of the low seven bits of
  its bytes, the \<open>i\<close>-th weighted by \<open>128 ^ i\<close>, up to and including the first byte whose
  high bit is clear. It returns the value and the bytes after the varint.
\<close>

fun decode_leb128 :: "bytes \<Rightarrow> (nat \<times> bytes) option" where
  "decode_leb128 [] = None"
| "decode_leb128 (b # bs) =
     (if b AND 0x80 = 0 then Some (unat b, bs)
      else case decode_leb128 bs of
             None \<Rightarrow> None
           | Some (v, rest) \<Rightarrow> Some (unat (b AND 0x7F) + 128 * v, rest))"

text \<open>
  A reader of one custom section at the head of a byte sequence, as a consumer of the
  container format proceeds: the tag byte 0, the size of the content as a varint, as many
  bytes of content, and inside it the length of the name as a varint, the name in UTF-8
  and the payload. It returns the name, the payload and the bytes after the section.
\<close>

definition read_custom_section :: "bytes \<Rightarrow> (str \<times> bytes \<times> bytes) option" where
  "read_custom_section bs =
     (case bs of
        [] \<Rightarrow> None
      | tag # bs1 \<Rightarrow>
         if tag \<noteq> 0 then None
         else case decode_leb128 bs1 of
           None \<Rightarrow> None
         | Some (sz, bs2) \<Rightarrow>
            if length bs2 < sz then None
            else case decode_leb128 (take sz bs2) of
              None \<Rightarrow> None
            | Some (name_len, bs3) \<Rightarrow>
               if length bs3 < name_len then None
               else case utf8_decode (take name_len bs3) of
                 Inl e \<Rightarrow> None
               | Inr name \<Rightarrow> Some (name, drop name_len bs3, drop sz bs2))"

section \<open>The varint encoder in closed form\<close>

text \<open>
  What the loop of \<open>encode_leb128\<close> appends for a natural number, as a total function:
  the seven-bit groups from the least significant one, each but the last with 128 added.
  The proofs below show that the loop computes it.
\<close>

function leb128_groups :: "nat \<Rightarrow> nat list" where
  "leb128_groups n =
     (if n div 128 = 0 then [n mod 128] else (n mod 128 + 128) # leb128_groups (n div 128))"
  by pat_completeness auto
termination
  by (relation "measure id") auto

declare leb128_groups.simps [simp del]

text \<open>
  A \<^verbatim>\<open>str\<close> that \<^verbatim>\<open>encode('utf-8')\<close> accepts: every element is a code point and none
  is a surrogate.
\<close>

definition encodable :: "str \<Rightarrow> bool" where
  "encodable s = list_all (\<lambda>c. c < 0xD800 \<or> (0xE000 \<le> c \<and> c < 0x110000)) s"

text \<open>
  A world in which the script is called as
  \<^verbatim>\<open>add_custom_section.py in.wasm -s manifest -o out.wasm\<close>, with the given contents of
  \<^verbatim>\<open>in.wasm\<close> and the given bytes on standard input. Every path can be written
  without limit, and standard output is a strict UTF-8 stream. The examples below run in
  it.
\<close>

definition example_world :: "bytes \<Rightarrow> bytes \<Rightarrow> world" where
  "example_world input raw =
     \<lparr>argv = [str_of ''add_custom_section.py'', str_of ''in.wasm'', str_of ''-s'',
              str_of ''manifest'', str_of ''-o'', str_of ''out.wasm''],
      stdin = raw,
      files = [str_of ''in.wasm'' \<mapsto> input],
      creatable = (\<lambda>path. True),
      write_limit = (\<lambda>path. None),
      stdout_accepts = encodable,
      stdout = []\<rparr>"

section \<open>Properties of the varint encoder\<close>

subsection \<open>Bit operations as arithmetic\<close>

lemma int_and_7F: "(v::int) AND 0x7F = v mod 128"
proof -
  have "(0x7F::int) = mask 7" by (simp add: mask_eq_exp_minus_1)
  moreover have "v AND mask 7 = v mod 2 ^ 7"
    by (simp only: take_bit_eq_mod flip: take_bit_eq_mask)
  ultimately show ?thesis by simp
qed

lemma int_or_80: "0 \<le> (b::int) \<Longrightarrow> b < 128 \<Longrightarrow> b OR 0x80 = b + 128"
proof -
  assume b: "0 \<le> b" "b < 128"
  have "b + 2 ^ 7 = b OR 2 ^ 7"
  proof (rule disjunctive_add)
    fix n
    have "take_bit 7 b = b" using b by (simp add: take_bit_int_eq_self)
    then have "bit b n \<Longrightarrow> n < 7" by (metis bit_take_bit_iff)
    moreover have "bit (2 ^ 7 :: int) n \<Longrightarrow> n = 7" by (simp only: bit_exp_iff)
    ultimately show "\<not> bit b n \<or> \<not> bit (2 ^ 7 :: int) n" by blast
  qed
  then show ?thesis by simp
qed

lemma encode_leb128_loop_nat:
  "encode_leb128_loop (int n) acc = Some (acc @ map int (leb128_groups n))"
proof (induction n arbitrary: acc rule: leb128_groups.induct)
  case (1 n)
  have d: "drop_bit 7 (int n) = int (n div 128)" by (simp add: drop_bit_eq_div zdiv_int)
  have m: "int n mod 128 = int (n mod 128)" by (simp add: zmod_int)
  show ?case
  proof (cases "n div 128 = 0")
    case True
    then show ?thesis
      by (subst encode_leb128_loop.simps, subst leb128_groups.simps)
         (simp add: Let_def d m int_and_7F del: div_eq_0_iff)
  next
    case False
    have o: "int (n mod 128) OR 0x80 = int (n mod 128) + 128"
      by (rule int_or_80) simp_all
    from False 1 show ?thesis
      by (subst encode_leb128_loop.simps, subst leb128_groups.simps)
         (simp add: Let_def d m o int_and_7F del: div_eq_0_iff)
  qed
qed

lemma byte_and_7F: "unat ((b::byte) AND 0x7F) = unat b mod 128"
proof -
  have "(0x7F::byte) = mask 7" by (simp add: mask_eq_exp_minus_1)
  moreover have "unat (b AND mask 7) = unat b mod 2 ^ 7"
  proof -
    have "unat (b AND mask 7) = unat (take_bit 7 b)" by (simp only: take_bit_eq_mask)
    also have "\<dots> = take_bit 7 (unat b)" by (rule unsigned_take_bit_eq)
    also have "\<dots> = unat b mod 2 ^ 7" by (rule take_bit_eq_mod)
    finally show ?thesis .
  qed
  ultimately show ?thesis by simp
qed

lemma byte_and_80: "((b::byte) AND 0x80 = 0) = (unat b < 128)"
proof -
  have "(b AND 2 ^ 7 = 0) = (\<not> bit b 7)" by (rule and_exp_eq_0_iff_not_bit)
  also have "bit b 7 = bit (unat b) 7" by (simp add: bit_unsigned_iff)
  also have "\<dots> = odd (unat b div 128)" by (simp add: bit_iff_odd_drop_bit drop_bit_eq_div)
  also have "\<dots> = (128 \<le> unat b)"
  proof -
    have "unat b < 256" using unsigned_less [of b] by simp
    then have "unat b div 128 = (if 128 \<le> unat b then 1 else 0)" by auto
    then show ?thesis by simp
  qed
  finally show ?thesis by (simp add: not_le)
qed

lemma unat_byte_of_nat: "x < 256 \<Longrightarrow> unat (of_nat x :: byte) = x"
  by (simp add: unsigned_of_nat take_bit_nat_eq_self)

lemma groups_nonempty: "leb128_groups n \<noteq> []"
  by (subst leb128_groups.simps) simp

lemma groups_range: "x \<in> set (leb128_groups n) \<Longrightarrow> x < 256"
proof (induction n rule: leb128_groups.induct)
  case (1 n)
  from "1.prems" have "x \<in> set (if n div 128 = 0 then [n mod 128] else (n mod 128 + 128) # leb128_groups (n div 128))"
    by (subst (asm) leb128_groups.simps) 
  with "1.IH" show ?case
    by (cases "n div 128 = 0") (auto simp del: div_eq_0_iff)
qed

lemma groups_small: "n < 128 \<Longrightarrow> leb128_groups n = [n]"
  by (subst leb128_groups.simps) simp

lemma groups_large:
  "128 \<le> n \<Longrightarrow> leb128_groups n = (n mod 128 + 128) # leb128_groups (n div 128)"
  by (subst leb128_groups.simps) simp

lemma groups_induct [case_names small large]:
  assumes "\<And>n::nat. n < 128 \<Longrightarrow> P n"
    and "\<And>n. 128 \<le> n \<Longrightarrow> P (n div 128) \<Longrightarrow> P n"
  shows "P n"
proof (induction n rule: less_induct)
  case (less n)
  show ?case
  proof (cases "n < 128")
    case True
    then show ?thesis by (rule assms(1))
  next
    case False
    then have "n div 128 < n" by simp
    then have "P (n div 128)" by (rule less)
    with False show ?thesis by (simp add: assms(2))
  qed
qed

lemma encode_leb128_nat:
  "encode_leb128 (int n) = Some (Inr (map of_nat (leb128_groups n)))"
proof -
  have "list_all (\<lambda>x. 0 \<le> x \<and> x < 256) (map int (leb128_groups n))"
    by (auto simp: list_all_iff dest: groups_range)
  then show ?thesis
    by (simp add: encode_leb128_def encode_leb128_loop_nat bytes_of_ints_def)
qed

lemma decode_groups:
  "decode_leb128 (map of_nat (leb128_groups n) @ rest) = Some (n, rest)"
proof (induction n rule: groups_induct)
  case (small n)
  then show ?case
    by (simp add: groups_small byte_and_80 unat_byte_of_nat)
next
  case (large n)
  have lt: "n mod 128 + 128 < 256" by simp
  have "unat (of_nat (n mod 128 + 128) :: byte) = n mod 128 + 128"
    using lt by (rule unat_byte_of_nat)
  with large show ?case
    by (simp add: groups_large byte_and_80 byte_and_7F)
qed

lemma groups_last:
  "last (leb128_groups n) < 128 \<and> (0 < n \<longrightarrow> last (leb128_groups n) \<noteq> 0)"
proof (induction n rule: groups_induct)
  case (small n)
  then show ?case by (simp add: groups_small)
next
  case (large n)
  then have "0 < n div 128" by simp
  with large show ?case by (simp add: groups_large groups_nonempty)
qed

lemma groups_high:
  "i < length (leb128_groups n) \<Longrightarrow>
   (leb128_groups n ! i < 128) = (Suc i = length (leb128_groups n))"
proof (induction n arbitrary: i rule: groups_induct)
  case (small n)
  then show ?case by (simp add: groups_small)
next
  case (large n)
  have ne: "0 < length (leb128_groups (n div 128))" by (simp add: groups_nonempty)
  show ?case
  proof (cases i)
    case 0
    with large ne show ?thesis by (simp add: groups_large)
  next
    case (Suc j)
    with large show ?thesis by (simp add: groups_large)
  qed
qed

lemma groups_length_le:
  "n < 128 ^ k \<Longrightarrow> 0 < k \<Longrightarrow> length (leb128_groups n) \<le> k"
proof (induction n arbitrary: k rule: groups_induct)
  case (small n)
  then show ?case by (simp add: groups_small)
next
  case (large n)
  from large.prems obtain j where k: "k = Suc j" by (cases k) auto
  with large.prems have "n div 128 < 128 ^ j"
    by (simp add: less_mult_imp_div_less mult.commute)
  moreover have "0 < j"
  proof (rule ccontr)
    assume "\<not> 0 < j"
    with k large.prems large.hyps show False by simp
  qed
  ultimately have "length (leb128_groups (n div 128)) \<le> j" by (rule large.IH)
  with large.hyps k show ?case by (simp add: groups_large)
qed

lemma groups_exhaust: "n div 128 ^ length (leb128_groups n) = 0"
proof (induction n rule: groups_induct)
  case (small n)
  then show ?case by (simp add: groups_small)
next
  case (large n)
  then show ?case by (simp add: groups_large flip: div_mult2_eq)
qed

lemma decode_bound:
  "decode_leb128 bs = Some (v, rest) \<Longrightarrow>
   length rest < length bs \<and> v < 128 ^ (length bs - length rest)"
proof (induction bs arbitrary: v rest)
  case Nil
  then show ?case by simp
next
  case (Cons b bs)
  show ?case
  proof (cases "b AND 0x80 = 0")
    case True
    with Cons.prems show ?thesis by (auto simp: byte_and_80)
  next
    case False
    with Cons.prems obtain v' where d: "decode_leb128 bs = Some (v', rest)"
      and v: "v = unat (b AND 0x7F) + 128 * v'"
      by (auto split: option.splits)
    from Cons.IH [OF d] have l: "length rest < length bs"
      and b: "v' < 128 ^ (length bs - length rest)" by simp_all
    from b have "Suc v' \<le> 128 ^ (length bs - length rest)" by simp
    then have "128 * Suc v' \<le> 128 * 128 ^ (length bs - length rest)" by (rule mult_le_mono2)
    moreover have "unat (b AND 0x7F) < 128" by (simp add: byte_and_7F)
    ultimately have "v < 128 * 128 ^ (length bs - length rest)" using v by simp
    moreover from l have "Suc (length bs) - length rest = Suc (length bs - length rest)" by simp
    ultimately show ?thesis using l by simp
  qed
qed

text \<open>A negative argument keeps the loop running: the shifted value never reaches zero.\<close>

lemma encode_leb128_loop_Some_nonneg:
  "encode_leb128_loop n acc = Some r \<Longrightarrow> 0 \<le> n"
proof (induction rule: encode_leb128_loop.raw_induct [rotated 1, consumes 1])
  case (1 f n acc r)
  show ?case
  proof (cases "drop_bit 7 n = 0")
    case True
    then have "n div 128 = 0" by (simp add: drop_bit_eq_div)
    then show ?thesis by (auto simp: zdiv_eq_0_iff)
  next
    case False
    with 1(2) have "f (drop_bit 7 n) (acc @ [n AND 0x7F OR 0x80]) = Some r"
      by (simp add: Let_def)
    then have "0 \<le> drop_bit 7 n" by (rule 1(1))
    then show ?thesis by simp
  qed
qed

lemma encode_leb128_negative: "n < 0 \<Longrightarrow> encode_leb128 n = None"
proof -
  assume "n < 0"
  then have "encode_leb128_loop n [] = None"
    using encode_leb128_loop_Some_nonneg [of n "[]"] by (cases "encode_leb128_loop n []") auto
  then show ?thesis by (simp add: encode_leb128_def)
qed

text \<open>
  C5: \<open>encode_leb128\<close> applied to 0 returns exactly the one byte 0x00, and not the empty
  byte sequence.
\<close>

theorem encode_leb128_zero:
  "encode_leb128 0 = Some (Inr [0x00]) \<and> encode_leb128 0 \<noteq> Some (Inr [])"
  unfolding encode_leb128_def
  by (subst encode_leb128_loop.simps, simp add: bytes_of_ints_def)+

text \<open>
  C9: for every non-negative argument the loop of \<open>encode_leb128\<close> returns, whatever the
  list it starts from. It appends at least one element; after as many shifts by seven
  bits as it appended elements the remaining value is zero, and after fewer (but at least
  one) it is not, so the loop stops at the first zero.
\<close>

theorem encode_leb128_terminates:
  "0 \<le> n \<Longrightarrow>
   \<exists>ds. encode_leb128_loop n acc = Some (acc @ ds) \<and> ds \<noteq> []
     \<and> drop_bit (7 * length ds) n = 0
     \<and> (\<forall>k. 0 < k \<and> k < length ds \<longrightarrow> drop_bit (7 * k) n \<noteq> 0)
     \<and> encode_leb128 n \<noteq> None"
proof -
  assume "0 \<le> n"
  then obtain m where n: "n = int m" by (metis nonneg_int_cases)
  let ?ds = "map int (leb128_groups m)"
  have shift: "drop_bit (7 * k) (int m) = int (m div 128 ^ k)" for k
    by (simp add: drop_bit_eq_div power_mult zdiv_int)
  have "encode_leb128_loop n acc = Some (acc @ ?ds)"
    by (simp add: n encode_leb128_loop_nat)
  moreover have "?ds \<noteq> []" by (simp add: groups_nonempty)
  moreover have "drop_bit (7 * length ?ds) n = 0"
    unfolding n shift by (simp add: groups_exhaust del: div_eq_0_iff)
  moreover have "drop_bit (7 * k) n \<noteq> 0" if "0 < k \<and> k < length ?ds" for k
  proof
    assume "drop_bit (7 * k) n = 0"
    then have "m < 128 ^ k" by (simp add: n shift div_eq_0_iff)
    with that have "length (leb128_groups m) \<le> k" by (intro groups_length_le) simp_all
    with that show False by simp
  qed
  moreover have "encode_leb128 n \<noteq> None" by (simp add: n encode_leb128_nat)
  ultimately show ?thesis by blast
qed

theorem encode_leb128_terminates_witness:
  "(0::int) \<le> 300
   \<and> encode_leb128_loop 300 [] = Some [0xAC, 0x02]
   \<and> drop_bit (7 * 2) (300::int) = 0
   \<and> drop_bit (7 * 1) (300::int) \<noteq> 0
   \<and> encode_leb128 300 \<noteq> None"
proof -
  have h: "(0::int) \<le> 300" by simp
  have e: "encode_leb128_loop 300 [] = Some [0xAC, 0x02]"
    using encode_leb128_loop_nat [of 300 "[]"] by (simp add: groups_large groups_small)
  from encode_leb128_terminates [OF h, of "[]"] obtain ds where
    l: "encode_leb128_loop 300 [] = Some ([] @ ds)"
    and z: "drop_bit (7 * length ds) (300::int) = 0"
    and nz: "\<forall>k. 0 < k \<and> k < length ds \<longrightarrow> drop_bit (7 * k) (300::int) \<noteq> 0"
    and r: "encode_leb128 300 \<noteq> None"
    by blast
  from l e have ds: "ds = [0xAC, 0x02]" by simp
  from z have "drop_bit (7 * 2) (300::int) = 0" unfolding ds by simp
  moreover from nz have "drop_bit (7 * 1) (300::int) \<noteq> 0" unfolding ds by simp
  ultimately show ?thesis using h e r by blast
qed

text \<open>
  C4: for every non-negative \<open>n\<close>, \<open>encode_leb128 n\<close> returns bytes that the LEB128 decoder
  reads back as \<open>n\<close>, consuming exactly those bytes whatever follows them. The encoding is
  minimal: it is not empty, its last byte is not zero when \<open>n\<close> is positive, the high bit
  is clear on the last byte and on no other, and no byte sequence that decodes to \<open>n\<close> is
  shorter.
\<close>

theorem encode_leb128_roundtrip_minimal:
  "0 \<le> n \<Longrightarrow>
   \<exists>bs. encode_leb128 n = Some (Inr bs)
     \<and> (\<forall>rest. decode_leb128 (bs @ rest) = Some (nat n, rest))
     \<and> bs \<noteq> []
     \<and> (0 < n \<longrightarrow> last bs \<noteq> 0)
     \<and> (\<forall>i<length bs. (bs ! i AND 0x80 = 0) = (Suc i = length bs))
     \<and> (\<forall>bs' rest. decode_leb128 (bs' @ rest) = Some (nat n, rest) \<longrightarrow> length bs \<le> length bs')"
proof -
  assume "0 \<le> n"
  then obtain m where n: "n = int m" by (metis nonneg_int_cases)
  let ?gs = "leb128_groups m"
  let ?bs = "map of_nat ?gs :: bytes"
  have unat_nth: "unat (?bs ! i) = ?gs ! i" if "i < length ?gs" for i
  proof -
    from that have "?gs ! i < 256" by (intro groups_range [OF nth_mem])
    with that show ?thesis by (simp add: unat_byte_of_nat)
  qed
  have "encode_leb128 n = Some (Inr ?bs)" by (simp add: n encode_leb128_nat)
  moreover have "decode_leb128 (?bs @ rest) = Some (nat n, rest)" for rest
    by (simp add: n decode_groups)
  moreover have "?bs \<noteq> []" by (simp add: groups_nonempty)
  moreover have "last ?bs \<noteq> 0" if "0 < n"
  proof
    assume z: "last ?bs = 0"
    have "last ?gs < 256" by (rule groups_range [OF last_in_set [OF groups_nonempty]])
    then have "unat (last ?bs) = last ?gs"
      by (simp add: last_map groups_nonempty unat_byte_of_nat)
    with z have "last ?gs = 0" by simp
    with that groups_last [of m] show False by (simp add: n)
  qed
  moreover have "(?bs ! i AND 0x80 = 0) = (Suc i = length ?bs)" if "i < length ?bs" for i
    using that groups_high [of i m] by (simp add: byte_and_80 unat_nth del: nth_map)
  moreover have "length ?bs \<le> length bs'"
    if "decode_leb128 (bs' @ rest) = Some (nat n, rest)" for bs' rest
  proof -
    from decode_bound [OF that] have "0 < length bs'" and "m < 128 ^ length bs'"
      by (simp_all add: n)
    then show ?thesis using groups_length_le [of m "length bs'"] by simp
  qed
  ultimately show ?thesis by blast
qed

theorem encode_leb128_roundtrip_minimal_witness:
  "(0::int) \<le> 16384
   \<and> encode_leb128 16384 = Some (Inr [0x80, 0x80, 0x01])
   \<and> decode_leb128 ([0x80, 0x80, 0x01] @ [0xFF]) = Some (16384, [0xFF])
   \<and> last [0x80, 0x80, 0x01 :: byte] \<noteq> 0
   \<and> decode_leb128 [0x80, 0x80, 0x81, 0x00] = Some (16384, [])
   \<and> length [0x80, 0x80, 0x01 :: byte] \<le> length [0x80, 0x80, 0x81, 0x00 :: byte]"
proof -
  have h: "(0::int) \<le> 16384" by simp
  have e: "encode_leb128 16384 = Some (Inr [0x80, 0x80, 0x01])"
    using encode_leb128_nat [of 16384] by (simp add: groups_large groups_small)
  have alt: "decode_leb128 ([0x80, 0x80, 0x81, 0x00] @ []) = Some (nat 16384, [])"
    by simp
  from encode_leb128_roundtrip_minimal [OF h] obtain bs where
    b: "encode_leb128 16384 = Some (Inr bs)"
    and d: "\<forall>rest. decode_leb128 (bs @ rest) = Some (nat 16384, rest)"
    and l: "0 < (16384::int) \<longrightarrow> last bs \<noteq> 0"
    and m: "\<forall>bs' rest. decode_leb128 (bs' @ rest) = Some (nat 16384, rest)
              \<longrightarrow> length bs \<le> length bs'"
    by blast
  from b e have bs: "bs = [0x80, 0x80, 0x01]" by simp
  from d have "decode_leb128 (bs @ [0xFF]) = Some (nat 16384, [0xFF])" by blast
  then have 1: "decode_leb128 ([0x80, 0x80, 0x01] @ [0xFF]) = Some (16384, [0xFF])"
    unfolding bs by simp
  from l have 2: "last [0x80, 0x80, 0x01 :: byte] \<noteq> 0" unfolding bs by simp
  from m alt have "length bs \<le> length [0x80, 0x80, 0x81, 0x00 :: byte]" by blast
  then have 3: "length [0x80, 0x80, 0x01 :: byte] \<le> length [0x80, 0x80, 0x81, 0x00 :: byte]"
    unfolding bs .
  from alt have 4: "decode_leb128 [0x80, 0x80, 0x81, 0x00] = Some (16384, [])" by simp
  from h e 1 2 3 4 show ?thesis by blast
qed


section \<open>Properties of the UTF-8 codec\<close>

lemma cons_ok_simps [simp]:
  "cons_ok c (Inr cs) = Inr (c # cs)" "cons_ok c (Inl e) = Inl e"
  by (simp_all add: cons_ok_def)

lemma utf8_decode_1:
  "unat b < 0x80 \<Longrightarrow> utf8_decode (b # rest) = cons_ok (unat b) (utf8_decode rest)"
  by simp

lemma utf8_decode_2:
  assumes "unat b = 0xC0 + h" "h < 32" "unat b1 = 0x80 + l" "l < 64" "0x80 \<le> h * 64 + l"
  shows "utf8_decode (b # b1 # rest) = cons_ok (h * 64 + l) (utf8_decode rest)"
  using assms by (simp add: is_cont_def)

lemma utf8_decode_3:
  assumes "unat b = 0xE0 + h" "h < 16" "unat b1 = 0x80 + m" "m < 64"
    "unat b2 = 0x80 + l" "l < 64"
    "0x800 \<le> h * 4096 + m * 64 + l"
    "\<not> (0xD800 \<le> h * 4096 + m * 64 + l \<and> h * 4096 + m * 64 + l < 0xE000)"
  shows "utf8_decode (b # b1 # b2 # rest) = cons_ok (h * 4096 + m * 64 + l) (utf8_decode rest)"
  using assms by (simp add: is_cont_def)

lemma utf8_decode_4:
  assumes "unat b = 0xF0 + h" "h < 8" "unat b1 = 0x80 + k" "k < 64"
    "unat b2 = 0x80 + m" "m < 64" "unat b3 = 0x80 + l" "l < 64"
    "0x10000 \<le> h * 262144 + k * 4096 + m * 64 + l"
    "h * 262144 + k * 4096 + m * 64 + l < 0x110000"
  shows "utf8_decode (b # b1 # b2 # b3 # rest)
         = cons_ok (h * 262144 + k * 4096 + m * 64 + l) (utf8_decode rest)"
  using assms by (simp add: is_cont_def)



lemma base64_2: "(q::nat) div 64 * 4096 + q mod 64 * 64 = q * 64"
proof -
  have "q div 64 * 4096 + q mod 64 * 64 = (q div 64 * 64 + q mod 64) * 64"
    by (simp only: distrib_right mult.assoc)
  then show ?thesis by (simp only: div_mult_mod_eq)
qed

lemma nat_split_4096: "(c::nat) div 4096 * 4096 + c div 64 mod 64 * 64 + c mod 64 = c"
proof -
  define q where "q = c div 64"
  have "c div 4096 = q div 64" unfolding q_def using div_mult2_eq [of c 64 64] by simp
  then have "c div 4096 * 4096 + c div 64 mod 64 * 64 + c mod 64
      = (q div 64 * 4096 + q mod 64 * 64) + c mod 64"
    by (simp only: q_def)
  also have "\<dots> = q * 64 + c mod 64" by (simp only: base64_2)
  also have "\<dots> = c" unfolding q_def by simp
  finally show ?thesis .
qed

lemma nat_split_262144:
  "(c::nat) div 262144 * 262144 + c div 4096 mod 64 * 4096 + c div 64 mod 64 * 64 + c mod 64 = c"
proof -
  define p where "p = c div 4096"
  have "c div 262144 = p div 64" unfolding p_def using div_mult2_eq [of c 4096 64] by simp
  then have "c div 262144 * 262144 + c div 4096 mod 64 * 4096
      = (p div 64 * 4096 + p mod 64 * 64) * 64"
    by (simp add: p_def)
  also have "\<dots> = p * 4096" by (simp only: base64_2)
  finally have "c div 262144 * 262144 + c div 4096 mod 64 * 4096 + c div 64 mod 64 * 64 + c mod 64
      = c div 4096 * 4096 + c div 64 mod 64 * 64 + c mod 64"
    by (simp only: p_def)
  then show ?thesis by (simp only: nat_split_4096)
qed


lemma utf8_encode_char_1: "c < 0x80 \<Longrightarrow> utf8_encode_char c = Inr [of_nat c]"
  by (simp add: utf8_encode_char_def)

lemma utf8_encode_char_2:
  "0x80 \<le> c \<Longrightarrow> c < 0x800 \<Longrightarrow>
   utf8_encode_char c = Inr [of_nat (0xC0 + c div 64), of_nat (0x80 + c mod 64)]"
  unfolding utf8_encode_char_def by (simp only: not_less [symmetric] if_False if_True)

lemma utf8_encode_char_3:
  "0x800 \<le> c \<Longrightarrow> c < 0x10000 \<Longrightarrow> \<not> (0xD800 \<le> c \<and> c < 0xE000) \<Longrightarrow>
   utf8_encode_char c = Inr [of_nat (0xE0 + c div 4096), of_nat (0x80 + c div 64 mod 64),
                             of_nat (0x80 + c mod 64)]"
proof -
  assume a: "0x800 \<le> c" "c < 0x10000" "\<not> (0xD800 \<le> c \<and> c < 0xE000)"
  then have "\<not> c < 0x80" "\<not> c < 0x800" by simp_all
  with a show ?thesis unfolding utf8_encode_char_def by (simp only: if_False if_True)
qed

lemma utf8_encode_char_4:
  "0x10000 \<le> c \<Longrightarrow> c < 0x110000 \<Longrightarrow>
   utf8_encode_char c = Inr [of_nat (0xF0 + c div 262144), of_nat (0x80 + c div 4096 mod 64),
                             of_nat (0x80 + c div 64 mod 64), of_nat (0x80 + c mod 64)]"
proof -
  assume a: "0x10000 \<le> c" "c < 0x110000"
  then have "\<not> c < 0x80" "\<not> c < 0x800" "\<not> (0xD800 \<le> c \<and> c < 0xE000)" "\<not> c < 0x10000"
    by simp_all
  with a show ?thesis unfolding utf8_encode_char_def by (simp only: if_False if_True)
qed

lemma utf8_encode_char_error:
  "(0xD800 \<le> c \<and> c < 0xE000) \<or> 0x110000 \<le> c \<Longrightarrow> utf8_encode_char c = Inl (ValueError UnicodeError)"
  by (auto simp: utf8_encode_char_def)

lemma utf8_encode_char_decode:
  assumes "utf8_encode_char c = Inr e"
  shows "utf8_decode (e @ rest) = cons_ok c (utf8_decode rest)"
proof -
  have "\<not> ((0xD800 \<le> c \<and> c < 0xE000) \<or> 0x110000 \<le> c)"
  proof
    assume "(0xD800 \<le> c \<and> c < 0xE000) \<or> 0x110000 \<le> c"
    then have "utf8_encode_char c = Inl (ValueError UnicodeError)" by (rule utf8_encode_char_error)
    with assms show False by simp
  qed
  then have ok: "\<not> (0xD800 \<le> c \<and> c < 0xE000)" "c < 0x110000"
    by simp_all
  consider (one) "c < 0x80" | (two) "0x80 \<le> c" "c < 0x800"
    | (three) "0x800 \<le> c" "c < 0x10000" | (four) "0x10000 \<le> c"
    by linarith
  then show ?thesis
  proof cases
    case one
    then have u: "unat (of_nat c :: byte) = c" by (intro unat_byte_of_nat) simp
    from one assms have e: "e = [of_nat c]" by (simp add: utf8_encode_char_1)
    from one u utf8_decode_1 [of "of_nat c" rest] show ?thesis by (simp only: e u append.simps)
  next
    case two
    have a: "unat (of_nat (0xC0 + c div 64) :: byte) = 0xC0 + c div 64"
      using two by (intro unat_byte_of_nat) simp
    have b: "unat (of_nat (0x80 + c mod 64) :: byte) = 0x80 + c mod 64"
      by (intro unat_byte_of_nat) simp
    have c: "c div 64 * 64 + c mod 64 = c" by simp
    from assms utf8_encode_char_2 [OF two]
    have e: "e = [of_nat (0xC0 + c div 64), of_nat (0x80 + c mod 64)]"
      by simp
    have "utf8_decode (of_nat (0xC0 + c div 64) # of_nat (0x80 + c mod 64) # rest)
          = cons_ok (c div 64 * 64 + c mod 64) (utf8_decode rest)"
      using two by (intro utf8_decode_2 a b) (simp_all add: c)
    then show ?thesis by (simp only: e c append.simps)
  next
    case three
    have a: "unat (of_nat (0xE0 + c div 4096) :: byte) = 0xE0 + c div 4096"
      using three by (intro unat_byte_of_nat) simp
    have b: "unat (of_nat (0x80 + c div 64 mod 64) :: byte) = 0x80 + c div 64 mod 64"
      by (intro unat_byte_of_nat) simp
    have d: "unat (of_nat (0x80 + c mod 64) :: byte) = 0x80 + c mod 64"
      by (intro unat_byte_of_nat) simp
    note c = nat_split_4096 [of c]
    from assms utf8_encode_char_3 [OF three ok(1)]
    have e: "e = [of_nat (0xE0 + c div 4096),
        of_nat (0x80 + c div 64 mod 64), of_nat (0x80 + c mod 64)]"
      by simp
    have "utf8_decode (of_nat (0xE0 + c div 4096) # of_nat (0x80 + c div 64 mod 64)
            # of_nat (0x80 + c mod 64) # rest)
          = cons_ok (c div 4096 * 4096 + c div 64 mod 64 * 64 + c mod 64) (utf8_decode rest)"
      using three ok by (intro utf8_decode_3 a b d) (simp_all add: c)
    then show ?thesis by (simp only: e c append.simps)
  next
    case four
    have a: "unat (of_nat (0xF0 + c div 262144) :: byte) = 0xF0 + c div 262144"
      using ok by (intro unat_byte_of_nat) simp
    have b: "unat (of_nat (0x80 + c div 4096 mod 64) :: byte) = 0x80 + c div 4096 mod 64"
      by (intro unat_byte_of_nat) simp
    have b2: "unat (of_nat (0x80 + c div 64 mod 64) :: byte) = 0x80 + c div 64 mod 64"
      by (intro unat_byte_of_nat) simp
    have d: "unat (of_nat (0x80 + c mod 64) :: byte) = 0x80 + c mod 64"
      by (intro unat_byte_of_nat) simp
    note c = nat_split_262144 [of c]
    from assms utf8_encode_char_4 [OF four ok(2)]
    have e: "e = [of_nat (0xF0 + c div 262144),
        of_nat (0x80 + c div 4096 mod 64), of_nat (0x80 + c div 64 mod 64),
        of_nat (0x80 + c mod 64)]"
      by simp
    have "utf8_decode (of_nat (0xF0 + c div 262144) # of_nat (0x80 + c div 4096 mod 64)
            # of_nat (0x80 + c div 64 mod 64) # of_nat (0x80 + c mod 64) # rest)
          = cons_ok (c div 262144 * 262144 + c div 4096 mod 64 * 4096
                     + c div 64 mod 64 * 64 + c mod 64) (utf8_decode rest)"
      using four ok by (intro utf8_decode_4 a b b2 d) (simp_all add: c)
    then show ?thesis by (simp only: e c append.simps)
  qed
qed

lemma utf8_encode_decode: "utf8_encode s = Inr bs \<Longrightarrow> utf8_decode bs = Inr s"
proof (induction s arbitrary: bs)
  case Nil
  then show ?case by simp
next
  case (Cons c cs)
  from Cons.prems obtain e rest where e: "utf8_encode_char c = Inr e"
    and r: "utf8_encode cs = Inr rest" and bs: "bs = e @ rest"
    by (auto split: sum.splits)
  from Cons.IH [OF r] utf8_encode_char_decode [OF e, of rest] show ?case
    by (simp add: bs)
qed





lemma utf8_encode_char_ok:
  "c < 0xD800 \<or> (0xE000 \<le> c \<and> c < 0x110000) \<Longrightarrow> \<exists>e. utf8_encode_char c = Inr e"
  by (auto simp: utf8_encode_char_def)

lemma utf8_encode_encodable:
  "encodable s \<Longrightarrow> \<exists>bs. utf8_encode s = Inr bs"
proof (induction s)
  case Nil
  then show ?case by simp
next
  case (Cons c cs)
  then have c: "c < 0xD800 \<or> (0xE000 \<le> c \<and> c < 0x110000)" and "encodable cs"
    by (simp_all add: encodable_def)
  with Cons.IH obtain rest where "utf8_encode cs = Inr rest" by blast
  moreover from c have "\<exists>e. utf8_encode_char c = Inr e"
    by (rule utf8_encode_char_ok)
  ultimately show ?case by auto
qed

lemma utf8_encode_not_encodable:
  "\<not> encodable s \<Longrightarrow> utf8_encode s = Inl (ValueError UnicodeError)"
proof (induction s)
  case Nil
  then show ?case by (simp add: encodable_def)
next
  case (Cons c cs)
  show ?case
  proof (cases "c < 0xD800 \<or> (0xE000 \<le> c \<and> c < 0x110000)")
    case True
    with Cons.prems have "\<not> encodable cs" by (simp add: encodable_def)
    then have "utf8_encode cs = Inl (ValueError UnicodeError)" by (rule Cons.IH)
    moreover from utf8_encode_char_ok [OF True] obtain e where "utf8_encode_char c = Inr e"
      by blast
    ultimately show ?thesis by simp
  next
    case False
    then have "utf8_encode_char c = Inl (ValueError UnicodeError)"
      by (intro utf8_encode_char_error) linarith
    then show ?thesis by simp
  qed
qed



section \<open>Properties of the splicer\<close>

text \<open>The call always returns; its result in closed form.\<close>

lemma add_custom_section_eq:
  "add_custom_section w name data =
     Some (if take 4 w \<noteq> wasm_magic then Inl (ValueError (Plain ''Invalid WASM file''))
           else case utf8_encode name of
             Inl e \<Rightarrow> Inl e
           | Inr nb \<Rightarrow>
               Inr (take 4 w @ take 4 (drop 4 w)
                    @ [0] @ map of_nat (leb128_groups (length
                        (map of_nat (leb128_groups (length nb)) @ nb @ data)))
                    @ map of_nat (leb128_groups (length nb)) @ nb @ data
                    @ drop 8 w))"
  by (simp add: add_custom_section_def encode_leb128_nat Let_def split: sum.splits)


lemma reader_inverts_record:
  assumes "utf8_encode name = Inr nb"
  shows "read_custom_section
           ([0] @ map of_nat (leb128_groups (length
                   (map of_nat (leb128_groups (length nb)) @ nb @ data)))
            @ (map of_nat (leb128_groups (length nb)) @ nb @ data) @ rest)
         = Some (name, data, rest)"
proof -
  let ?nl = "map of_nat (leb128_groups (length nb)) :: bytes"
  let ?content = "?nl @ nb @ data"
  let ?cl = "map of_nat (leb128_groups (length ?content)) :: bytes"
  have outer: "decode_leb128 (?cl @ ?content @ rest) = Some (length ?content, ?content @ rest)"
    by (rule decode_groups)
  have inner: "decode_leb128 ?content = Some (length nb, nb @ data)"
    by (rule decode_groups)
  have name: "utf8_decode nb = Inr name" using assms by (rule utf8_encode_decode)
  from outer inner name show ?thesis
    by (simp add: read_custom_section_def)
qed


text \<open>
  The two exceptions of \<open>add_custom_section\<close>: the format error for a wrong magic, and,
  with the right magic, the codec's error for a name that has no UTF-8 encoding.
\<close>

lemma add_custom_section_raises:
  "add_custom_section w name data = Some (Inl e) \<Longrightarrow>
   (take 4 w \<noteq> wasm_magic \<and> e = ValueError (Plain ''Invalid WASM file''))
   \<or> (take 4 w = wasm_magic \<and> \<not> encodable name \<and> e = ValueError UnicodeError)"
proof (cases "encodable name")
  case True
  then obtain nb where "utf8_encode name = Inr nb" using utf8_encode_encodable by blast
  moreover assume "add_custom_section w name data = Some (Inl e)"
  ultimately show ?thesis by (simp add: add_custom_section_eq split: if_splits)
next
  case False
  then have "utf8_encode name = Inl (ValueError UnicodeError)" by (rule utf8_encode_not_encodable)
  moreover assume "add_custom_section w name data = Some (Inl e)"
  ultimately show ?thesis using False by (simp add: add_custom_section_eq split: if_splits)
qed

lemma header_split: "take 4 w @ take 4 (drop 4 w) = take 8 w"
  using take_add [of 4 4 w] by simp

lemma add_custom_section_ok:
  assumes "take 4 w = wasm_magic" and "utf8_encode name = Inr nb"
  shows "add_custom_section w name data =
     Some (Inr (take 4 w @ take 4 (drop 4 w)
                @ ([0] @ map of_nat (leb128_groups (length
                        (map of_nat (leb128_groups (length nb)) @ nb @ data)))
                   @ map of_nat (leb128_groups (length nb)) @ nb @ data)
                @ drop 8 w))"
  using assms by (simp add: add_custom_section_eq)

text \<open>
  C3: for the container \<open>00 61 73 6D 01 00 00 00\<close>, the name "hello" and the payload
  \<open>42 6F 6E 6A 6F 75 72\<close>, \<open>add_custom_section\<close> returns the header, the tag 00, the
  content length 0D, the name length 05, the name and the payload, as the claim lists
  them. These are 23 bytes and not the 22 the claim counts.
\<close>

theorem add_custom_section_scenario:
  "add_custom_section [0x00, 0x61, 0x73, 0x6D, 0x01, 0x00, 0x00, 0x00] (str_of ''hello'')
     [0x42, 0x6F, 0x6E, 0x6A, 0x6F, 0x75, 0x72]
   = Some (Inr ([0x00, 0x61, 0x73, 0x6D, 0x01, 0x00, 0x00, 0x00] @ [0x00] @ [0x0D] @ [0x05]
                @ [0x68, 0x65, 0x6C, 0x6C, 0x6F] @ [0x42, 0x6F, 0x6E, 0x6A, 0x6F, 0x75, 0x72]))
   \<and> length ([0x00, 0x61, 0x73, 0x6D, 0x01, 0x00, 0x00, 0x00] @ [0x00] @ [0x0D] @ [0x05]
                @ [0x68, 0x65, 0x6C, 0x6C, 0x6F] @ [0x42, 0x6F, 0x6E, 0x6A, 0x6F, 0x75, 0x72 :: byte])
       = 23"
  by (simp add: add_custom_section_eq wasm_magic_def str_of_def utf8_encode_char_def
      groups_small)

theorem add_custom_section_scenario_counterexample:
  "add_custom_section [0x00, 0x61, 0x73, 0x6D, 0x01, 0x00, 0x00, 0x00] (str_of ''hello'')
     [0x42, 0x6F, 0x6E, 0x6A, 0x6F, 0x75, 0x72]
   = Some (Inr [0x00, 0x61, 0x73, 0x6D, 0x01, 0x00, 0x00, 0x00, 0x00, 0x0D, 0x05,
                0x68, 0x65, 0x6C, 0x6C, 0x6F, 0x42, 0x6F, 0x6E, 0x6A, 0x6F, 0x75, 0x72])
   \<and> length [0x00, 0x61, 0x73, 0x6D, 0x01, 0x00, 0x00, 0x00, 0x00, 0x0D, 0x05,
                0x68, 0x65, 0x6C, 0x6C, 0x6F, 0x42, 0x6F, 0x6E, 0x6A, 0x6F, 0x75, 0x72 :: byte]
       \<noteq> 22"
  by (simp add: add_custom_section_eq wasm_magic_def str_of_def utf8_encode_char_def
      groups_small)

text \<open>
  C1, as stated, fails in two places. For a container of only the four magic bytes the
  output is the magic followed by the section, so its first eight bytes are not the
  (four) first bytes of the input. And a name with a lone surrogate makes
  \<open>add_custom_section\<close> raise.
\<close>

theorem add_custom_section_header_counterexample:
  "add_custom_section [0x00, 0x61, 0x73, 0x6D] [] []
     = Some (Inr [0x00, 0x61, 0x73, 0x6D, 0x00, 0x01, 0x00])
   \<and> take 8 [0x00, 0x61, 0x73, 0x6D, 0x00, 0x01, 0x00 :: byte] \<noteq> take 8 [0x00, 0x61, 0x73, 0x6D]
   \<and> add_custom_section [0x00, 0x61, 0x73, 0x6D, 0x01, 0x00, 0x00, 0x00] [0xDC80] [0x42]
     = Some (Inl (ValueError UnicodeError))"
  by (simp add: add_custom_section_eq wasm_magic_def utf8_encode_char_def groups_small)

text \<open>
  C1, amended: for every input whose first four bytes are the magic, every name without
  surrogate code points and every payload, \<open>add_custom_section\<close> returns the slice
  \<open>[0,4)\<close> of the input, then the slice \<open>[4,8)\<close>, then the section record (tag 0, the
  varint of the content length, and as content the varint of the name length, the UTF-8
  name and the payload), then the input from offset 8. When the input has at least
  eight bytes, the first eight bytes of the output are those of the input.
\<close>

theorem add_custom_section_layout:
  assumes "take 4 wasm_bytes = wasm_magic" and "encodable name"
  shows "\<exists>name_bytes name_len content_len out.
     utf8_encode name = Inr name_bytes
     \<and> encode_leb128 (int (length name_bytes)) = Some (Inr name_len)
     \<and> encode_leb128 (int (length (name_len @ name_bytes @ data))) = Some (Inr content_len)
     \<and> add_custom_section wasm_bytes name data = Some (Inr out)
     \<and> out = take 4 wasm_bytes @ take 4 (drop 4 wasm_bytes)
             @ ([0] @ content_len @ name_len @ name_bytes @ data) @ drop 8 wasm_bytes
     \<and> (8 \<le> length wasm_bytes \<longrightarrow> take 8 out = take 8 wasm_bytes)"
proof -
  from assms(2) obtain nb where nb: "utf8_encode name = Inr nb"
    using utf8_encode_encodable by blast
  let ?nl = "map of_nat (leb128_groups (length nb)) :: bytes"
  let ?cl = "map of_nat (leb128_groups (length (?nl @ nb @ data))) :: bytes"
  let ?out = "take 4 wasm_bytes @ take 4 (drop 4 wasm_bytes)
             @ ([0] @ ?cl @ ?nl @ nb @ data) @ drop 8 wasm_bytes"
  have "encode_leb128 (int (length nb)) = Some (Inr ?nl)" by (rule encode_leb128_nat)
  moreover have "encode_leb128 (int (length (?nl @ nb @ data))) = Some (Inr ?cl)"
    by (rule encode_leb128_nat)
  moreover have "add_custom_section wasm_bytes name data = Some (Inr ?out)"
    using assms(1) nb by (rule add_custom_section_ok)
  moreover have "take 8 ?out = take 8 wasm_bytes" if "8 \<le> length wasm_bytes"
  proof -
    have "?out = take 8 wasm_bytes @ ([0] @ ?cl @ ?nl @ nb @ data) @ drop 8 wasm_bytes"
      by (simp only: header_split [symmetric] append_assoc)
    with that show ?thesis by simp
  qed
  ultimately show ?thesis using nb by blast
qed

theorem add_custom_section_layout_witness:
  "take 4 [0x00, 0x61, 0x73, 0x6D, 0x01, 0x00, 0x00, 0x00, 0x01, 0x00] = wasm_magic
   \<and> encodable (str_of ''hello'')
   \<and> 8 \<le> length [0x00, 0x61, 0x73, 0x6D, 0x01, 0x00, 0x00, 0x00, 0x01, 0x00 :: byte]
   \<and> (\<exists>name_bytes name_len content_len out.
     utf8_encode (str_of ''hello'') = Inr name_bytes
     \<and> encode_leb128 (int (length name_bytes)) = Some (Inr name_len)
     \<and> encode_leb128 (int (length (name_len @ name_bytes @ [0x42, 0x6F]))) = Some (Inr content_len)
     \<and> add_custom_section [0x00, 0x61, 0x73, 0x6D, 0x01, 0x00, 0x00, 0x00, 0x01, 0x00]
           (str_of ''hello'') [0x42, 0x6F] = Some (Inr out)
     \<and> out = take 4 [0x00, 0x61, 0x73, 0x6D, 0x01, 0x00, 0x00, 0x00, 0x01, 0x00]
             @ take 4 (drop 4 [0x00, 0x61, 0x73, 0x6D, 0x01, 0x00, 0x00, 0x00, 0x01, 0x00])
             @ ([0] @ content_len @ name_len @ name_bytes @ [0x42, 0x6F])
             @ drop 8 [0x00, 0x61, 0x73, 0x6D, 0x01, 0x00, 0x00, 0x00, 0x01, 0x00]
     \<and> take 8 out = take 8 [0x00, 0x61, 0x73, 0x6D, 0x01, 0x00, 0x00, 0x00, 0x01, 0x00])"
proof -
  have h1: "take 4 [0x00, 0x61, 0x73, 0x6D, 0x01, 0x00, 0x00, 0x00, 0x01, 0x00] = wasm_magic"
    by (simp add: wasm_magic_def)
  have h2: "encodable (str_of ''hello'')" by (simp add: encodable_def str_of_def)
  have h3: "8 \<le> length [0x00, 0x61, 0x73, 0x6D, 0x01, 0x00, 0x00, 0x00, 0x01, 0x00 :: byte]"
    by simp
  from add_custom_section_layout [OF h1 h2, of "[0x42, 0x6F]"] h3 h1 h2 show ?thesis
    by blast
qed

text \<open>
  C2, as stated, fails: for the six-byte container \<open>00 61 73 6D 01 00\<close> the section
  starts at offset 6, so what lies at offset 8 is not the new section. And a name with a
  lone surrogate makes \<open>add_custom_section\<close> raise, so that there is no output.
\<close>

theorem add_custom_section_offset_counterexample:
  "add_custom_section [0x00, 0x61, 0x73, 0x6D, 0x01, 0x00] [0x61] [0x42]
     = Some (Inr ([0x00, 0x61, 0x73, 0x6D, 0x01, 0x00] @ [0x00, 0x03, 0x01, 0x61, 0x42]))
   \<and> take 5 (drop 8 ([0x00, 0x61, 0x73, 0x6D, 0x01, 0x00] @ [0x00, 0x03, 0x01, 0x61, 0x42 :: byte]))
     \<noteq> [0x00, 0x03, 0x01, 0x61, 0x42]
   \<and> read_custom_section
        (drop 8 ([0x00, 0x61, 0x73, 0x6D, 0x01, 0x00] @ [0x00, 0x03, 0x01, 0x61, 0x42])) = None
   \<and> add_custom_section [0x00, 0x61, 0x73, 0x6D, 0x01, 0x00, 0x00, 0x00, 0x01, 0x00]
        [0x61, 0xDFFF] [0x42] = Some (Inl (ValueError UnicodeError))"
  by (simp add: add_custom_section_eq wasm_magic_def utf8_encode_char_def groups_small
      read_custom_section_def)

text \<open>
  C2, amended: for every input whose first four bytes are the magic, every name without
  surrogate code points and every payload, the output is the first eight bytes of the
  input (all of them when there are fewer), then a record that a reader of custom sections
  reads as this name and this payload, then the input from offset 8. The output from
  offset 8 plus the length of the record on equals the input from offset 8 on. When the
  input has at least eight bytes, the record lies at offset 8 of the output, right after
  the header, and reading a section there leaves exactly the original sections.
\<close>

theorem add_custom_section_tail:
  assumes "take 4 wasm_bytes = wasm_magic" and "encodable name"
  shows "\<exists>record out.
     add_custom_section wasm_bytes name data = Some (Inr out)
     \<and> out = take 8 wasm_bytes @ record @ drop 8 wasm_bytes
     \<and> (\<forall>rest. read_custom_section (record @ rest) = Some (name, data, rest))
     \<and> drop (8 + length record) out = drop 8 wasm_bytes
     \<and> (8 \<le> length wasm_bytes \<longrightarrow>
          take (length record) (drop 8 out) = record
          \<and> read_custom_section (drop 8 out) = Some (name, data, drop 8 wasm_bytes))"
proof -
  from assms(2) obtain nb where nb: "utf8_encode name = Inr nb"
    using utf8_encode_encodable by blast
  let ?nl = "map of_nat (leb128_groups (length nb)) :: bytes"
  let ?cl = "map of_nat (leb128_groups (length (?nl @ nb @ data))) :: bytes"
  let ?sec = "[0] @ ?cl @ ?nl @ nb @ data"
  let ?out = "take 8 wasm_bytes @ ?sec @ drop 8 wasm_bytes"
  have reader: "read_custom_section (?sec @ rest) = Some (name, data, rest)" for rest
    using reader_inverts_record [OF nb, of data rest] by simp
  have "add_custom_section wasm_bytes name data = Some (Inr ?out)"
    unfolding add_custom_section_ok [OF assms(1) nb]
    by (simp only: header_split [symmetric] append_assoc)
  moreover have "drop (8 + length ?sec) ?out = drop 8 wasm_bytes"
  proof (cases "8 \<le> length wasm_bytes")
    case True
    then show ?thesis by simp
  next
    case False
    then show ?thesis by simp
  qed
  moreover have "take (length ?sec) (drop 8 ?out) = ?sec
      \<and> read_custom_section (drop 8 ?out) = Some (name, data, drop 8 wasm_bytes)"
    if "8 \<le> length wasm_bytes"
  proof -
    from that have "drop 8 ?out = ?sec @ drop 8 wasm_bytes" by simp
    then show ?thesis using reader [of "drop 8 wasm_bytes"] by simp
  qed
  ultimately show ?thesis using reader by blast
qed

theorem add_custom_section_tail_witness:
  "take 4 [0x00, 0x61, 0x73, 0x6D, 0x01, 0x00, 0x00, 0x00, 0x01, 0x00] = wasm_magic
   \<and> encodable (str_of ''meta'')
   \<and> 8 \<le> length [0x00, 0x61, 0x73, 0x6D, 0x01, 0x00, 0x00, 0x00, 0x01, 0x00 :: byte]
   \<and> (\<exists>sec out.
     add_custom_section [0x00, 0x61, 0x73, 0x6D, 0x01, 0x00, 0x00, 0x00, 0x01, 0x00]
         (str_of ''meta'') [0x7B, 0x7D] = Some (Inr out)
     \<and> out = take 8 [0x00, 0x61, 0x73, 0x6D, 0x01, 0x00, 0x00, 0x00, 0x01, 0x00] @ sec
             @ drop 8 [0x00, 0x61, 0x73, 0x6D, 0x01, 0x00, 0x00, 0x00, 0x01, 0x00]
     \<and> (\<forall>rest. read_custom_section (sec @ rest) = Some (str_of ''meta'', [0x7B, 0x7D], rest))
     \<and> drop (8 + length sec) out
         = drop 8 [0x00, 0x61, 0x73, 0x6D, 0x01, 0x00, 0x00, 0x00, 0x01, 0x00]
     \<and> take (length sec) (drop 8 out) = sec
     \<and> read_custom_section (drop 8 out)
          = Some (str_of ''meta'', [0x7B, 0x7D],
                  drop 8 [0x00, 0x61, 0x73, 0x6D, 0x01, 0x00, 0x00, 0x00, 0x01, 0x00]))"
proof -
  have h1: "take 4 [0x00, 0x61, 0x73, 0x6D, 0x01, 0x00, 0x00, 0x00, 0x01, 0x00] = wasm_magic"
    by (simp add: wasm_magic_def)
  have h2: "encodable (str_of ''meta'')" by (simp add: encodable_def str_of_def)
  have h3: "8 \<le> length [0x00, 0x61, 0x73, 0x6D, 0x01, 0x00, 0x00, 0x00, 0x01, 0x00 :: byte]"
    by simp
  from add_custom_section_tail [OF h1 h2, of "[0x7B, 0x7D]"] h3 h1 h2 show ?thesis
    by blast
qed

text \<open>
  C7, as stated, fails for a name with a lone surrogate: it has no UTF-8 encoding, the
  encoder raises and no record is built.
\<close>

theorem section_builder_record_counterexample:
  "utf8_encode [0x6E, 0xD800] = Inl (ValueError UnicodeError)
   \<and> add_custom_section [0x00, 0x61, 0x73, 0x6D, 0x01, 0x00, 0x00, 0x00] [0x6E, 0xD800]
        [0x7B, 0x7D] = Some (Inl (ValueError UnicodeError))"
  by (simp add: add_custom_section_eq wasm_magic_def utf8_encode_char_def)

text \<open>
  C7, amended: for every name without surrogate code points and every payload, the record
  that \<open>add_custom_section\<close> inserts (into any input that starts with the magic) is the
  byte 0, the varint of the length of the content, and the content, which is the varint
  of the length of the UTF-8 name, the UTF-8 name and the payload. The LEB128 decoder
  reads the outer prefix as the exact length of the content that follows it, and the
  reader of custom sections reads the record back as the original name and payload.
\<close>

theorem section_builder_record:
  assumes "take 4 wasm_bytes = wasm_magic" and "encodable name"
  shows "\<exists>name_bytes name_len section_content content_len record.
     utf8_encode name = Inr name_bytes
     \<and> encode_leb128 (int (length name_bytes)) = Some (Inr name_len)
     \<and> section_content = name_len @ name_bytes @ data
     \<and> encode_leb128 (int (length section_content)) = Some (Inr content_len)
     \<and> record = [0] @ content_len @ section_content
     \<and> add_custom_section wasm_bytes name data
         = Some (Inr (take 4 wasm_bytes @ take 4 (drop 4 wasm_bytes) @ record
                      @ drop 8 wasm_bytes))
     \<and> (\<forall>rest. decode_leb128 (content_len @ section_content @ rest)
                 = Some (length section_content, section_content @ rest))
     \<and> (\<forall>rest. read_custom_section (record @ rest) = Some (name, data, rest))"
proof -
  from assms(2) obtain nb where nb: "utf8_encode name = Inr nb"
    using utf8_encode_encodable by blast
  let ?nl = "map of_nat (leb128_groups (length nb)) :: bytes"
  let ?content = "?nl @ nb @ data"
  let ?cl = "map of_nat (leb128_groups (length ?content)) :: bytes"
  let ?sec = "[0] @ ?cl @ ?content"
  have "encode_leb128 (int (length nb)) = Some (Inr ?nl)" by (rule encode_leb128_nat)
  moreover have "encode_leb128 (int (length ?content)) = Some (Inr ?cl)"
    by (rule encode_leb128_nat)
  moreover have "add_custom_section wasm_bytes name data
      = Some (Inr (take 4 wasm_bytes @ take 4 (drop 4 wasm_bytes) @ ?sec
                   @ drop 8 wasm_bytes))"
    using add_custom_section_ok [OF assms(1) nb] by simp
  moreover have "decode_leb128 (?cl @ ?content @ rest)
      = Some (length ?content, ?content @ rest)" for rest
    by (rule decode_groups)
  moreover have "read_custom_section (?sec @ rest) = Some (name, data, rest)" for rest
    using reader_inverts_record [OF nb, of data rest] by simp
  ultimately show ?thesis using nb by blast
qed

theorem section_builder_record_witness:
  "take 4 [0x00, 0x61, 0x73, 0x6D, 0x01, 0x00, 0x00, 0x00] = wasm_magic
   \<and> encodable [0x6E, 0xE9, 0x20AC, 0x1F600]
   \<and> (\<exists>name_bytes name_len section_content content_len record.
     utf8_encode [0x6E, 0xE9, 0x20AC, 0x1F600] = Inr name_bytes
     \<and> encode_leb128 (int (length name_bytes)) = Some (Inr name_len)
     \<and> section_content = name_len @ name_bytes @ [0x7B, 0x7D]
     \<and> encode_leb128 (int (length section_content)) = Some (Inr content_len)
     \<and> record = [0] @ content_len @ section_content
     \<and> add_custom_section [0x00, 0x61, 0x73, 0x6D, 0x01, 0x00, 0x00, 0x00]
           [0x6E, 0xE9, 0x20AC, 0x1F600] [0x7B, 0x7D]
         = Some (Inr (take 4 [0x00, 0x61, 0x73, 0x6D, 0x01, 0x00, 0x00, 0x00]
                      @ take 4 (drop 4 [0x00, 0x61, 0x73, 0x6D, 0x01, 0x00, 0x00, 0x00])
                      @ record @ drop 8 [0x00, 0x61, 0x73, 0x6D, 0x01, 0x00, 0x00, 0x00]))
     \<and> (\<forall>rest. decode_leb128 (content_len @ section_content @ rest)
                 = Some (length section_content, section_content @ rest))
     \<and> (\<forall>rest. read_custom_section (record @ rest)
                 = Some ([0x6E, 0xE9, 0x20AC, 0x1F600], [0x7B, 0x7D], rest)))"
proof -
  have h1: "take 4 [0x00, 0x61, 0x73, 0x6D, 0x01, 0x00, 0x00, 0x00] = wasm_magic"
    by (simp add: wasm_magic_def)
  have h2: "encodable [0x6E, 0xE9, 0x20AC, 0x1F600]" by (simp add: encodable_def)
  show ?thesis by (intro conjI h1 h2 section_builder_record [OF h1 h2])
qed

text \<open>
  C10, as stated, fails: the input of exactly the four magic bytes is not accepted when
  the name holds a lone surrogate; \<open>add_custom_section\<close> raises.
\<close>

theorem add_custom_section_short_counterexample:
  "take 4 [0x00, 0x61, 0x73, 0x6D] = wasm_magic
   \<and> add_custom_section [0x00, 0x61, 0x73, 0x6D] [0xDC80] [] = Some (Inl (ValueError UnicodeError))"
  by (simp add: add_custom_section_eq wasm_magic_def utf8_encode_char_def)

text \<open>
  C10, amended: for every name without surrogate code points and every payload,
  \<open>add_custom_section\<close> returns a result, without raising, for every input whose first
  four bytes are the magic, also when the input is shorter than eight bytes. The copied
  version field has \<open>min 4 (length - 4)\<close> bytes; for an input shorter than eight bytes
  it has fewer than four, nothing follows the section, and the output is the input
  followed by the section record.
\<close>

theorem add_custom_section_accepts_short:
  assumes "take 4 wasm_bytes = wasm_magic" and "encodable name"
  shows "\<exists>sec. add_custom_section wasm_bytes name data
           = Some (Inr (take 4 wasm_bytes @ take 4 (drop 4 wasm_bytes) @ sec
                        @ drop 8 wasm_bytes))
     \<and> (\<forall>rest. read_custom_section (sec @ rest) = Some (name, data, rest))
     \<and> length (take 4 (drop 4 wasm_bytes)) = min 4 (length wasm_bytes - 4)
     \<and> (length wasm_bytes < 8 \<longrightarrow>
          length (take 4 (drop 4 wasm_bytes)) < 4
          \<and> drop 8 wasm_bytes = []
          \<and> add_custom_section wasm_bytes name data = Some (Inr (wasm_bytes @ sec)))"
proof -
  from assms(2) obtain nb where nb: "utf8_encode name = Inr nb"
    using utf8_encode_encodable by blast
  let ?nl = "map of_nat (leb128_groups (length nb)) :: bytes"
  let ?cl = "map of_nat (leb128_groups (length (?nl @ nb @ data))) :: bytes"
  let ?sec = "[0] @ ?cl @ ?nl @ nb @ data"
  have res: "add_custom_section wasm_bytes name data
      = Some (Inr (take 4 wasm_bytes @ take 4 (drop 4 wasm_bytes) @ ?sec @ drop 8 wasm_bytes))"
    using assms(1) nb by (rule add_custom_section_ok)
  have reader: "read_custom_section (?sec @ rest) = Some (name, data, rest)" for rest
    using reader_inverts_record [OF nb, of data rest] by simp
  have len: "length (take 4 (drop 4 wasm_bytes)) = min 4 (length wasm_bytes - 4)"
    by simp
  have short: "length (take 4 (drop 4 wasm_bytes)) < 4 \<and> drop 8 wasm_bytes = []
      \<and> add_custom_section wasm_bytes name data = Some (Inr (wasm_bytes @ ?sec))"
    if "length wasm_bytes < 8"
  proof -
    from that have "take 8 wasm_bytes = wasm_bytes" by simp
    then have "take 4 wasm_bytes @ take 4 (drop 4 wasm_bytes) = wasm_bytes"
      by (simp only: header_split)
    then have "take 4 wasm_bytes @ take 4 (drop 4 wasm_bytes) @ ?sec @ drop 8 wasm_bytes
        = wasm_bytes @ ?sec"
      using that by (simp flip: append_assoc)
    with res that show ?thesis by simp
  qed
  from res reader len short show ?thesis by blast
qed

theorem add_custom_section_accepts_short_witness:
  "take 4 [0x00, 0x61, 0x73, 0x6D, 0x01] = wasm_magic
   \<and> encodable (str_of ''m'')
   \<and> length [0x00, 0x61, 0x73, 0x6D, 0x01 :: byte] < 8
   \<and> length (take 4 (drop 4 [0x00, 0x61, 0x73, 0x6D, 0x01 :: byte])) < 4
   \<and> (\<exists>sec. add_custom_section [0x00, 0x61, 0x73, 0x6D, 0x01] (str_of ''m'') [0x7B, 0x7D]
               = Some (Inr ([0x00, 0x61, 0x73, 0x6D, 0x01] @ sec))
         \<and> read_custom_section sec = Some (str_of ''m'', [0x7B, 0x7D], []))"
proof -
  have h1: "take 4 [0x00, 0x61, 0x73, 0x6D, 0x01] = wasm_magic"
    by (simp add: wasm_magic_def)
  have h2: "encodable (str_of ''m'')" by (simp add: encodable_def str_of_def)
  have h3: "length [0x00, 0x61, 0x73, 0x6D, 0x01 :: byte] < 8" by simp
  from add_custom_section_accepts_short [OF h1 h2, of "[0x7B, 0x7D]"] h3
  obtain sec where
    "add_custom_section [0x00, 0x61, 0x73, 0x6D, 0x01] (str_of ''m'') [0x7B, 0x7D]
       = Some (Inr ([0x00, 0x61, 0x73, 0x6D, 0x01] @ sec))"
    and "\<forall>rest. read_custom_section (sec @ rest) = Some (str_of ''m'', [0x7B, 0x7D], rest)"
    and "length (take 4 (drop 4 [0x00, 0x61, 0x73, 0x6D, 0x01 :: byte])) < 4"
    by blast
  then show ?thesis using h1 h2 h3 by (metis append_Nil2)
qed

section \<open>Properties of the command-line program\<close>

lemma add_custom_section_not_encodable:
  "take 4 w = wasm_magic \<Longrightarrow> \<not> encodable name \<Longrightarrow>
   add_custom_section w name data = Some (Inl (ValueError UnicodeError))"
  by (simp add: add_custom_section_eq utf8_encode_not_encodable)

lemma main_args_ok:
  assumes "length (argv w) = 6" "argv w ! 2 = str_of ''-s''" "argv w ! 4 = str_of ''-o''"
  shows "main w =
     (case read_manifest (stdin w) of
        Inl e \<Rightarrow> Some (Raised e, w)
      | Inr manifest_data \<Rightarrow>
         (case files w (argv w ! 1) of
            None \<Rightarrow> Some (Raised OSError, w)
          | Some wasm_bytes \<Rightarrow>
             (case add_custom_section wasm_bytes (argv w ! 3) manifest_data of
                None \<Rightarrow> None
              | Some (Inl e) \<Rightarrow> Some (Raised e, w)
              | Some (Inr result) \<Rightarrow>
                 Some (write_output w (argv w ! 3) (argv w ! 5) result))))"
  using assms by (simp add: main_def Let_def del: One_nat_def)

text \<open>
  What the end of the run does to the world: without an openable output path nothing
  changes; a run that finishes has written the whole result and printed the message; and
  whatever happens, every path but the output path keeps its contents.
\<close>

lemma write_output_not_creatable:
  "\<not> creatable w output_file \<Longrightarrow>
   write_output w section_name output_file result = (Raised OSError, w)"
  by (simp add: write_output_def)



lemma write_output_other_files:
  "write_output w section_name output_file result = (r, w') \<Longrightarrow> path \<noteq> output_file \<Longrightarrow>
   files w' path = files w path"
  by (auto simp: write_output_def print_line_def split: if_splits option.splits)

lemma main_writes_only_after_success:
  assumes "main w = Some (r, w')" and "files w' \<noteq> files w"
  shows "\<exists>manifest wasm_bytes result.
     read_manifest (stdin w) = Inr manifest \<and> files w (argv w ! 1) = Some wasm_bytes
     \<and> add_custom_section wasm_bytes (argv w ! 3) manifest = Some (Inr result)"
  using assms
  by (auto simp: main_def Let_def print_line_def
      split: if_splits sum.splits option.splits simp del: One_nat_def)

lemma example_world_args:
  "length (argv (example_world input raw)) = 6"
  "argv (example_world input raw) ! 2 = str_of ''-s''"
  "argv (example_world input raw) ! 4 = str_of ''-o''"
  "files (example_world input raw) (argv (example_world input raw) ! 1) = Some input"
  "stdin (example_world input raw) = raw"
  by (simp_all add: example_world_def)



text \<open>
  C6, as stated, fails: "raises \<open>ValueError\<close> if and only if the magic is wrong" does not
  hold, since \<open>UnicodeEncodeError\<close> is a \<open>ValueError\<close>. For a container with the right
  magic and a name with a lone surrogate, \<open>add_custom_section\<close> raises a \<open>ValueError\<close>.
\<close>

theorem invalid_format_counterexample:
  "take 4 [0x00, 0x61, 0x73, 0x6D, 0x01, 0x00, 0x00, 0x00, 0x01, 0x00] = wasm_magic
   \<and> add_custom_section [0x00, 0x61, 0x73, 0x6D, 0x01, 0x00, 0x00, 0x00, 0x01, 0x00]
        [0x6D, 0xDCFF] [0x7B, 0x7D] = Some (Inl (ValueError UnicodeError))"
  by (simp add: add_custom_section_eq wasm_magic_def utf8_encode_char_def)

text \<open>
  C6, amended: \<open>add_custom_section\<close> raises \<open>ValueError("Invalid WASM file")\<close>, the format
  error, exactly when the first four bytes of the input are not the magic. It raises a
  \<open>ValueError\<close> of any kind exactly when the magic is wrong or the name holds a lone
  surrogate (the \<open>ValueError\<close> is then the codec's \<open>UnicodeEncodeError\<close>), and it raises
  nothing else; so for a name without surrogates it fails exactly when the magic is
  wrong. With a wrong magic it returns no bytes, and the script that called it ends with
  the format error in the world it started in: no file is written and nothing is printed.
\<close>

theorem invalid_format_iff_bad_magic:
  "(add_custom_section wasm_bytes name data
      = Some (Inl (ValueError (Plain ''Invalid WASM file''))))
     = (take 4 wasm_bytes \<noteq> wasm_magic)
   \<and> ((\<exists>v. add_custom_section wasm_bytes name data = Some (Inl (ValueError v)))
        = (take 4 wasm_bytes \<noteq> wasm_magic \<or> \<not> encodable name))
   \<and> (\<forall>e. add_custom_section wasm_bytes name data = Some (Inl e) \<longrightarrow> (\<exists>v. e = ValueError v))
   \<and> (encodable name \<longrightarrow>
        (\<exists>e. add_custom_section wasm_bytes name data = Some (Inl e))
          = (take 4 wasm_bytes \<noteq> wasm_magic))
   \<and> (take 4 wasm_bytes \<noteq> wasm_magic \<longrightarrow>
        (\<forall>out. add_custom_section wasm_bytes name data \<noteq> Some (Inr out)))
   \<and> (\<forall>w manifest.
        take 4 wasm_bytes \<noteq> wasm_magic
        \<and> length (argv w) = 6 \<and> argv w ! 2 = str_of ''-s'' \<and> argv w ! 4 = str_of ''-o''
        \<and> read_manifest (stdin w) = Inr manifest
        \<and> files w (argv w ! 1) = Some wasm_bytes
        \<longrightarrow> main w = Some (Raised (ValueError (Plain ''Invalid WASM file'')), w))"
proof -
  let ?r = "add_custom_section wasm_bytes name data"
  have bad: "?r = Some (Inl (ValueError (Plain ''Invalid WASM file'')))"
    if "take 4 wasm_bytes \<noteq> wasm_magic"
    using that by (simp add: add_custom_section_eq)
  have surrogate: "?r = Some (Inl (ValueError UnicodeError))"
    if "take 4 wasm_bytes = wasm_magic" "\<not> encodable name"
    using that by (rule add_custom_section_not_encodable)
  have good: "\<exists>out. ?r = Some (Inr out)"
    if "take 4 wasm_bytes = wasm_magic" "encodable name"
  proof -
    from that(2) obtain nb where "utf8_encode name = Inr nb"
      using utf8_encode_encodable by blast
    with that(1) show ?thesis by (simp add: add_custom_section_ok)
  qed
  have 1: "(?r = Some (Inl (ValueError (Plain ''Invalid WASM file''))))
      = (take 4 wasm_bytes \<noteq> wasm_magic)"
  proof (cases "take 4 wasm_bytes = wasm_magic")
    case False
    then show ?thesis using bad by simp
  next
    case True
    show ?thesis
    proof (cases "encodable name")
      case True
      with \<open>take 4 wasm_bytes = wasm_magic\<close> good show ?thesis by auto
    next
      case False
      with \<open>take 4 wasm_bytes = wasm_magic\<close> surrogate show ?thesis by simp
    qed
  qed
  have 2: "(\<exists>v. ?r = Some (Inl (ValueError v)))
      = (take 4 wasm_bytes \<noteq> wasm_magic \<or> \<not> encodable name)"
  proof (cases "take 4 wasm_bytes = wasm_magic")
    case False
    then show ?thesis using bad by simp
  next
    case True
    show ?thesis
    proof (cases "encodable name")
      case True
      with \<open>take 4 wasm_bytes = wasm_magic\<close> good show ?thesis by auto
    next
      case False
      with \<open>take 4 wasm_bytes = wasm_magic\<close> surrogate show ?thesis by simp
    qed
  qed
  have 3: "\<forall>e. ?r = Some (Inl e) \<longrightarrow> (\<exists>v. e = ValueError v)"
    using add_custom_section_raises [of wasm_bytes name data] by blast
  have 4: "(\<exists>e. ?r = Some (Inl e)) = (take 4 wasm_bytes \<noteq> wasm_magic)" if "encodable name"
  proof (cases "take 4 wasm_bytes = wasm_magic")
    case False
    then show ?thesis using bad by simp
  next
    case True
    with that good show ?thesis by auto
  qed
  have 5: "\<forall>out. ?r \<noteq> Some (Inr out)" if "take 4 wasm_bytes \<noteq> wasm_magic"
    using bad [OF that] by simp
  have 6: "main w = Some (Raised (ValueError (Plain ''Invalid WASM file'')), w)"
    if a: "take 4 wasm_bytes \<noteq> wasm_magic
        \<and> length (argv w) = 6 \<and> argv w ! 2 = str_of ''-s'' \<and> argv w ! 4 = str_of ''-o''
        \<and> read_manifest (stdin w) = Inr manifest
        \<and> files w (argv w ! 1) = Some wasm_bytes"
    for w :: world and manifest :: bytes
  proof -
    from a have "main w =
       (case add_custom_section wasm_bytes (argv w ! 3) manifest of
          None \<Rightarrow> None
        | Some (Inl e) \<Rightarrow> Some (Raised e, w)
        | Some (Inr result) \<Rightarrow> Some (write_output w (argv w ! 3) (argv w ! 5) result))"
      by (simp add: main_args_ok)
    with a show ?thesis by (simp add: add_custom_section_eq)
  qed
  from 1 2 3 4 5 6 show ?thesis by blast
qed

theorem invalid_format_iff_bad_magic_witness:
  "take 4 [0x7F, 0x45, 0x4C, 0x46, 0x02, 0x01, 0x01, 0x00] \<noteq> wasm_magic
   \<and> encodable (str_of ''manifest'')
   \<and> read_manifest [0x7B, 0x7D] = Inr [0x7B, 0x7D]
   \<and> add_custom_section [0x7F, 0x45, 0x4C, 0x46, 0x02, 0x01, 0x01, 0x00] (str_of ''manifest'')
        [0x7B, 0x7D] = Some (Inl (ValueError (Plain ''Invalid WASM file'')))
   \<and> (\<exists>e. add_custom_section [0x7F, 0x45, 0x4C, 0x46, 0x02, 0x01, 0x01, 0x00]
              (str_of ''manifest'') [0x7B, 0x7D] = Some (Inl e))
   \<and> main (example_world [0x7F, 0x45, 0x4C, 0x46, 0x02, 0x01, 0x01, 0x00] [0x7B, 0x7D])
       = Some (Raised (ValueError (Plain ''Invalid WASM file'')),
               example_world [0x7F, 0x45, 0x4C, 0x46, 0x02, 0x01, 0x01, 0x00] [0x7B, 0x7D])"
proof -
  let ?elf = "[0x7F, 0x45, 0x4C, 0x46, 0x02, 0x01, 0x01, 0x00] :: bytes"
  let ?w = "example_world ?elf [0x7B, 0x7D]"
  note t = invalid_format_iff_bad_magic [of ?elf "str_of ''manifest''" "[0x7B, 0x7D]"]
  have h1: "take 4 ?elf \<noteq> wasm_magic" by (simp add: wasm_magic_def)
  have h2: "read_manifest [0x7B, 0x7D] = Inr [0x7B, 0x7D]"
    by (simp add: read_manifest_def utf8_encode_char_def)
  have h3: "length (argv ?w) = 6 \<and> argv ?w ! 2 = str_of ''-s'' \<and> argv ?w ! 4 = str_of ''-o''
      \<and> read_manifest (stdin ?w) = Inr [0x7B, 0x7D] \<and> files ?w (argv ?w ! 1) = Some ?elf"
    using h2 by (simp add: example_world_args del: One_nat_def)
  have h4: "encodable (str_of ''manifest'')" by (simp add: encodable_def str_of_def)
  from t h1 have a: "add_custom_section ?elf (str_of ''manifest'') [0x7B, 0x7D]
      = Some (Inl (ValueError (Plain ''Invalid WASM file'')))"
    by blast
  from t h1 h4 have b: "\<exists>e. add_custom_section ?elf (str_of ''manifest'') [0x7B, 0x7D]
      = Some (Inl e)"
    by blast
  from t h1 h3 have c: "main ?w = Some (Raised (ValueError (Plain ''Invalid WASM file'')), ?w)"
    by blast
  from h1 h2 h4 a b c show ?thesis by blast
qed




text \<open>
  The error paths at the end of the run, in general and in the example world: an output
  path that cannot be opened for writing (a missing directory) ends the run with
  \<open>OSError\<close> and nothing written; a strict standard output that cannot encode the output
  path ends it with \<open>UnicodeError\<close> after the file is written.
\<close>

lemma main_output_not_creatable:
  assumes "length (argv w) = 6" "argv w ! 2 = str_of ''-s''" "argv w ! 4 = str_of ''-o''"
    and "read_manifest (stdin w) = Inr manifest" and "files w (argv w ! 1) = Some wasm_bytes"
    and "add_custom_section wasm_bytes (argv w ! 3) manifest = Some (Inr result)"
    and "\<not> creatable w (argv w ! 5)"
  shows "main w = Some (Raised OSError, w)"
  using assms(4-7) by (simp add: main_args_ok [OF assms(1-3)] write_output_not_creatable)

lemma main_print_fails:
  assumes "length (argv w) = 6" "argv w ! 2 = str_of ''-s''" "argv w ! 4 = str_of ''-o''"
    and "read_manifest (stdin w) = Inr manifest" and "files w (argv w ! 1) = Some wasm_bytes"
    and "add_custom_section wasm_bytes (argv w ! 3) manifest = Some (Inr result)"
    and "creatable w (argv w ! 5)" and "write_limit w (argv w ! 5) = None"
    and "\<not> stdout_accepts w (added_message (argv w ! 3) (argv w ! 5))"
  shows "main w = Some (Raised (ValueError UnicodeError),
                        w\<lparr>files := (files w)(argv w ! 5 \<mapsto> result)\<rparr>)"
  using assms(4-9)
  by (simp add: main_args_ok [OF assms(1-3)] write_output_def print_line_def)

lemma main_missing_directory_example:
  "main ((example_world [0x00, 0x61, 0x73, 0x6D, 0x01, 0x00, 0x00, 0x00] [0x7B, 0x7D])
           \<lparr>creatable := (\<lambda>path. False)\<rparr>)
   = Some (Raised OSError,
           (example_world [0x00, 0x61, 0x73, 0x6D, 0x01, 0x00, 0x00, 0x00] [0x7B, 0x7D])
             \<lparr>creatable := (\<lambda>path. False)\<rparr>)"
  by (simp add: main_def Let_def example_world_def read_manifest_def utf8_encode_char_def
      str_of_def add_custom_section_eq wasm_magic_def write_output_def)

end
